theory Spec2Isabelle
  imports
    Complex_Main
    "HOL-Library.Multiset"
    "HOL-Library.Product_Lexorder"
    "HOL-Library.List_Lexorder"
    "HOL-Library.Char_ord"
    "HOL-Library.Monad_Syntax"
begin

section \<open>Gold-layer analytics build: data model\<close>

text \<open>
  The development follows \<^verbatim>\<open>src/glue/build_gold_layer/build_gold_analytics.py\<close>.
  A pandas DataFrame is a list of rows, in row order. A float column that may hold NaN
  is a \<open>real option\<close> (\<open>None\<close> is NaN), with exact arithmetic on the numbers (no
  rounding, no infinities); a datetime
  column is an \<open>int option\<close> (a timestamp, \<open>None\<close> is NaT); an object column that a left
  join can leave empty is a \<open>string option\<close>. Identifiers are strings: the silver
  transformers produce them with \<^verbatim>\<open>astype(str)\<close>, so they are never missing.
  Columns that the functions below only carry along (names, e-mail, source file and so
  on) are left out of the records.
\<close>

text \<open>One repayment event of the silver \<^verbatim>\<open>loan_repayments\<close> dataset.\<close>

record repayment =
  repayment_id :: string
  loan_id :: string
  customer_id :: string
  due_date :: "int option"
  payment_date :: "int option"
  amount_paid :: "real option"
  status :: string
  days_past_due :: "int option"

text \<open>A row of DimLoan; the prefix keeps the column names apart from those of a repayment.\<close>

record dim_loan =
  dl_loan_id :: string
  dl_customer_id :: string
  dl_loan_amount :: "real option"
  dl_interest_rate :: "real option"
  dl_term_months :: "real option"
  dl_approval_status :: "string option"
  dl_updated_date :: "int option"

text \<open>A row of DimCustomer.\<close>

record dim_customer =
  dc_customer_id :: string
  dc_address :: "string option"
  dc_credit_score :: "real option"
  dc_updated_date :: "int option"

text \<open>
  What the upsert functions find under a table's output path: the listing or a read may
  raise (\<open>ReadError\<close>), otherwise there is a list of parquet files, each a list of rows.
\<close>

datatype 'r persisted = ReadError | Files "'r list list"

section \<open>pandas operations\<close>

text \<open>
  \<^verbatim>\<open>sort_values\<close> puts missing values last, whatever the direction. Ascending order on
  a nullable timestamp is the order of \<open>na_last\<close>, descending order that of \<open>na_last_desc\<close>.
\<close>

definition na_last :: "int option \<Rightarrow> nat \<times> int" where
  "na_last d = (case d of None \<Rightarrow> (1, 0) | Some t \<Rightarrow> (0, t))"

definition na_last_desc :: "int option \<Rightarrow> nat \<times> int" where
  "na_last_desc d = (case d of None \<Rightarrow> (1, 0) | Some t \<Rightarrow> (0, - t))"

text \<open>
  \<^verbatim>\<open>df.sort_values(col, ascending=False)\<close>: rows in descending order of the column,
  missing values last. pandas fixes no order among rows with equal values when it sorts
  by one column; here they keep the order they had.
\<close>

definition sort_values_desc :: "('r \<Rightarrow> int option) \<Rightarrow> 'r list \<Rightarrow> 'r list" where
  "sort_values_desc col rows = sort_key (\<lambda>r. na_last_desc (col r)) rows"


text \<open>
  \<^verbatim>\<open>df.sort_values(['loan_id', 'payment_date'])\<close>: lexicographic on the two columns,
  a stable sort.
\<close>

definition sort_values_loan_date ::
  "('r \<Rightarrow> string) \<Rightarrow> ('r \<Rightarrow> int option) \<Rightarrow> 'r list \<Rightarrow> 'r list" where
  "sort_values_loan_date lid pdate rows = sort_key (\<lambda>r. (lid r, na_last (pdate r))) rows"

text \<open>\<^verbatim>\<open>df.drop_duplicates(subset=[key], keep='first')\<close>.\<close>

fun drop_duplicates :: "('r \<Rightarrow> 'k) \<Rightarrow> 'r list \<Rightarrow> 'r list" where
  "drop_duplicates key [] = []"
| "drop_duplicates key (r # rs) = r # drop_duplicates key (filter (\<lambda>x. key x \<noteq> key r) rs)"

section \<open>Upsert of the dimensions and of the fact table\<close>

definition apply_dim_customer_upsert ::
  "dim_customer persisted \<Rightarrow> dim_customer list \<Rightarrow> dim_customer list" where
  "apply_dim_customer_upsert store new_data =
     (case store of
        ReadError \<Rightarrow> new_data
      | Files files \<Rightarrow>
          if files \<noteq> [] then
            let existing_data = concat files;
                combined = existing_data @ new_data;
                combined = sort_values_desc dc_updated_date combined;
                final_data = drop_duplicates dc_customer_id combined
            in final_data
          else new_data)"

definition apply_dim_loan_upsert ::
  "dim_loan persisted \<Rightarrow> dim_loan list \<Rightarrow> dim_loan list" where
  "apply_dim_loan_upsert store new_data =
     (case store of
        ReadError \<Rightarrow> new_data
      | Files files \<Rightarrow>
          if files \<noteq> [] then
            let existing_data = concat files;
                combined = existing_data @ new_data;
                combined = sort_values_desc dl_updated_date combined;
                final_data = drop_duplicates dl_loan_id combined
            in final_data
          else new_data)"

text \<open>
  The rows of FactLoanPerformance are repayments with further columns (the amortization
  outputs, the default flag, the processing date), which the upsert does not read: they
  are the extension of the record.
\<close>

definition apply_fact_loan_performance_upsert ::
  "('a repayment_scheme) persisted \<Rightarrow> 'a repayment_scheme list \<Rightarrow> 'a repayment_scheme list" where
  "apply_fact_loan_performance_upsert store new_facts =
     (case store of
        ReadError \<Rightarrow> new_facts
      | Files files \<Rightarrow>
          if files \<noteq> [] then
            let existing_facts = concat files;
                combined = existing_facts @ new_facts;
                combined = sort_values_desc payment_date combined;
                final_facts = drop_duplicates repayment_id combined;
                final_facts = sort_values_loan_date loan_id payment_date final_facts
            in final_facts
          else new_facts)"

text \<open>
  What the upsert is to achieve, in the words of the specification: of the rows at hand,
  exactly one row per key survives, and no row with the same key is more recent than
  the survivor (a missing recency value counts as the oldest).
\<close>

definition latest_per_key :: "('r \<Rightarrow> 'k) \<Rightarrow> ('r \<Rightarrow> int option) \<Rightarrow> 'r list \<Rightarrow> 'r list \<Rightarrow> bool" where
  "latest_per_key key col rows res \<longleftrightarrow>
     distinct (map key res) \<and> set res \<subseteq> set rows \<and> key ` set res = key ` set rows \<and>
     (\<forall>m\<in>set res. \<forall>x\<in>set rows. key x = key m \<longrightarrow> na_last_desc (col m) \<le> na_last_desc (col x))"

section \<open>Amortization engine\<close>

text \<open>
  Python's arithmetic and comparisons on floats that may be NaN. An operation with a NaN
  operand is NaN; a comparison with a NaN operand is false. The built-in \<^verbatim>\<open>min(a, b)\<close>
  is \<^verbatim>\<open>b if b < a else a\<close> and \<^verbatim>\<open>max(a, b)\<close> is \<^verbatim>\<open>b if b > a else a\<close>.
\<close>

definition fadd :: "real option \<Rightarrow> real option \<Rightarrow> real option" where
  "fadd a b = (case (a, b) of (Some x, Some y) \<Rightarrow> Some (x + y) | _ \<Rightarrow> None)"

definition fsub :: "real option \<Rightarrow> real option \<Rightarrow> real option" where
  "fsub a b = (case (a, b) of (Some x, Some y) \<Rightarrow> Some (x - y) | _ \<Rightarrow> None)"

definition fmul :: "real option \<Rightarrow> real option \<Rightarrow> real option" where
  "fmul a b = (case (a, b) of (Some x, Some y) \<Rightarrow> Some (x * y) | _ \<Rightarrow> None)"

definition flt :: "real option \<Rightarrow> real option \<Rightarrow> bool" where
  "flt a b = (case (a, b) of (Some x, Some y) \<Rightarrow> x < y | _ \<Rightarrow> False)"

definition py_min :: "real option \<Rightarrow> real option \<Rightarrow> real option" where
  "py_min a b = (if flt b a then b else a)"

definition py_max :: "real option \<Rightarrow> real option \<Rightarrow> real option" where
  "py_max a b = (if flt a b then b else a)"

text \<open>
  A repayment joined to its loan's characteristics, and the same row with the three
  columns the engine computes.
\<close>

record joined_row =
  rep :: repayment
  loan_amount :: "real option"
  interest_rate :: "real option"
  term_months :: "real option"

record amort_row = joined_row +
  outstanding_balance :: "real option"
  principal_paid :: "real option"
  interest_paid :: "real option"

text \<open>
  \<^verbatim>\<open>df.merge(dim_loan[[...]], on='loan_id', how='left')\<close>: every repayment, in order,
  once for each row of DimLoan with its \<open>loan_id\<close>, and once with empty loan columns when
  there is none.
\<close>

definition merge_dim_loan :: "repayment list \<Rightarrow> dim_loan list \<Rightarrow> joined_row list" where
  "merge_dim_loan df dim_loan =
     concat (map (\<lambda>r.
       case filter (\<lambda>d. dl_loan_id d = loan_id r) dim_loan of
         [] \<Rightarrow> [\<lparr>rep = r, loan_amount = None, interest_rate = None, term_months = None\<rparr>]
       | ms \<Rightarrow> map (\<lambda>d. \<lparr>rep = r, loan_amount = dl_loan_amount d,
                    interest_rate = dl_interest_rate d, term_months = dl_term_months d\<rparr>) ms) df)"

text \<open>The joined table in the order in which the engine walks it.\<close>

definition sorted_fact :: "repayment list \<Rightarrow> dim_loan list \<Rightarrow> joined_row list" where
  "sorted_fact df dim_loan =
     sort_values_loan_date (\<lambda>r. loan_id (rep r)) (\<lambda>r. payment_date (rep r))
       (merge_dim_loan df dim_loan)"

text \<open>The three new columns, set to \<^verbatim>\<open>0.0\<close>.\<close>

definition init_columns :: "joined_row \<Rightarrow> amort_row" where
  "init_columns r =
     \<lparr>rep = rep r, loan_amount = loan_amount r, interest_rate = interest_rate r,
      term_months = term_months r,
      outstanding_balance = Some 0, principal_paid = Some 0, interest_paid = Some 0\<rparr>"

text \<open>\<^verbatim>\<open>Series.unique()\<close>: the values in order of first appearance.\<close>

definition unique :: "'a list \<Rightarrow> 'a list" where
  "unique xs = drop_duplicates (\<lambda>x. x) xs"

text \<open>
  The inner loop \<^verbatim>\<open>for idx in loan_data.index\<close>. A row is addressed by its position in
  the sorted table: the index labels are unique (the merge numbers the rows), so
  \<^verbatim>\<open>fact.loc[idx, col] = v\<close> writes one cell of one row. The table \<^verbatim>\<open>fact\<close> of the
  source is \<open>fact_df\<close> here, since \<open>fact\<close> is the factorial.
\<close>

fun amortize_rows ::
  "real option \<Rightarrow> real option \<Rightarrow> nat list \<Rightarrow> amort_row list \<Rightarrow> amort_row list" where
  "amortize_rows monthly_rate running_balance [] fact_df = fact_df"
| "amortize_rows monthly_rate running_balance (idx # idxs) fact_df =
     (let interest = fmul running_balance monthly_rate;
          amount = amount_paid (rep (fact_df ! idx));
          interest_p = py_min amount interest;
          principal_p = fsub amount interest_p;
          running_balance = fsub running_balance principal_p;
          running_balance = py_max (Some 0) running_balance
      in amortize_rows monthly_rate running_balance idxs
           (fact_df[idx := (fact_df ! idx)\<lparr>interest_paid := interest_p, principal_paid := principal_p,
                                     outstanding_balance := running_balance\<rparr>]))"

text \<open>
  The body of the outer loop for one \<open>loan_id\<close>. \<^verbatim>\<open>.iloc[0]\<close> on an empty selection
  raises IndexError: the result \<open>None\<close>.
\<close>

definition amortize_loan :: "string \<Rightarrow> amort_row list \<Rightarrow> amort_row list option" where
  "amortize_loan lid fact_df =
     (let loan_mask = filter (\<lambda>i. loan_id (rep (fact_df ! i)) = lid) [0..<length fact_df]
      in case loan_mask of
           [] \<Rightarrow> None
         | i0 # _ \<Rightarrow>
             let initial_balance = loan_amount (fact_df ! i0);
                 annual_rate = interest_rate (fact_df ! i0)
             in if initial_balance = None \<or> annual_rate = None then
                  Some (map (\<lambda>r. if loan_id (rep r) = lid
                                  then r\<lparr>outstanding_balance := Some 0,
                                         principal_paid := amount_paid (rep r),
                                         interest_paid := Some 0\<rparr>
                                  else r) fact_df)
                else
                  let monthly_rate = map_option (\<lambda>a. a / 100 / 12) annual_rate;
                      running_balance = initial_balance
                  in Some (amortize_rows monthly_rate running_balance loan_mask fact_df))"

fun amortize_loans :: "string list \<Rightarrow> amort_row list \<Rightarrow> amort_row list option" where
  "amortize_loans [] fact_df = Some fact_df"
| "amortize_loans (lid # lids) fact_df =
     (case amortize_loan lid fact_df of
        None \<Rightarrow> None
      | Some fact_df' \<Rightarrow> amortize_loans lids fact_df')"

definition calculate_amortization :: "repayment list \<Rightarrow> dim_loan list \<Rightarrow> amort_row list option" where
  "calculate_amortization df dim_loan =
     (let fact_df = sorted_fact df dim_loan;
          fact_df = map init_columns fact_df
      in amortize_loans (unique (map (\<lambda>r. loan_id (rep r)) fact_df)) fact_df)"

subsection \<open>The engine in the words of the specification\<close>

text \<open>
  The sequential fold over one loan's payments: from the running balance and a payment
  to interest paid, principal paid and the new balance.
\<close>

fun amortization_fold ::
  "real option \<Rightarrow> real option \<Rightarrow> real option list \<Rightarrow>
     (real option \<times> real option \<times> real option) list" where
  "amortization_fold monthly_rate running_balance [] = []"
| "amortization_fold monthly_rate running_balance (amount # amounts) =
     (let interest_due = fmul running_balance monthly_rate;
          interest_p = py_min amount interest_due;
          principal_p = fsub amount interest_p;
          new_balance = py_max (Some 0) (fsub running_balance principal_p)
      in (interest_p, principal_p, new_balance) #
         amortization_fold monthly_rate new_balance amounts)"

text \<open>
  The schedule of one loan, from its rows in payment order: the fallback when the loan's
  amount or rate is missing (read off the loan's first row, as the code does), the fold
  otherwise. An entry is (interest paid, principal paid, outstanding balance).
\<close>

definition loan_schedule ::
  "joined_row list \<Rightarrow> (real option \<times> real option \<times> real option) list" where
  "loan_schedule rows =
     (case rows of
        [] \<Rightarrow> []
      | r0 # _ \<Rightarrow>
          (case (loan_amount r0, interest_rate r0) of
             (Some amount, Some annual_rate) \<Rightarrow>
               amortization_fold (Some (annual_rate / 100 / 12)) (Some amount)
                 (map (\<lambda>r. amount_paid (rep r)) rows)
           | _ \<Rightarrow> map (\<lambda>r. (Some 0, amount_paid (rep r), Some 0)) rows))"

definition joined_of :: "amort_row \<Rightarrow> joined_row" where
  "joined_of r = \<lparr>rep = rep r, loan_amount = loan_amount r, interest_rate = interest_rate r,
                  term_months = term_months r\<rparr>"

definition outputs :: "amort_row \<Rightarrow> real option \<times> real option \<times> real option" where
  "outputs r = (interest_paid r, principal_paid r, outstanding_balance r)"

text \<open>The rows of one loan, in table order.\<close>

definition loan_rows :: "string \<Rightarrow> ('a joined_row_scheme) list \<Rightarrow> ('a joined_row_scheme) list" where
  "loan_rows lid fact_df = filter (\<lambda>r. loan_id (rep r) = lid) fact_df"

text \<open>
  A column of balances in which every entry is a number, none is negative and each is
  at most the one before it.
\<close>

definition fle :: "real option \<Rightarrow> real option \<Rightarrow> bool" where
  "fle a b = (case (a, b) of (Some x, Some y) \<Rightarrow> x \<le> y | _ \<Rightarrow> False)"

fun non_increasing_balances :: "real option list \<Rightarrow> bool" where
  "non_increasing_balances [] = True"
| "non_increasing_balances [b] = fle (Some 0) b"
| "non_increasing_balances (a # b # rest) =
     (fle (Some 0) a \<and> fle b a \<and> non_increasing_balances (b # rest))"

text \<open>The outputs of a table by repayment, for comparing two runs.\<close>

definition outputs_by_repayment ::
  "amort_row list \<Rightarrow> (string \<times> real option \<times> real option \<times> real option) set" where
  "outputs_by_repayment fact_df =
     set (map (\<lambda>r. (repayment_id (rep r), principal_paid r, interest_paid r,
                     outstanding_balance r)) fact_df)"

section \<open>Portfolio KPIs\<close>





























section \<open>Region of a customer\<close>

text \<open>\<^verbatim>\<open>s.split(c)\<close>: the pieces between the separators, at least one.\<close>

fun split_on :: "char \<Rightarrow> string \<Rightarrow> string list" where
  "split_on c [] = [[]]"
| "split_on c (x # xs) =
     (if x = c then [] # split_on c xs
      else (case split_on c xs of
              p # ps \<Rightarrow> (x # p) # ps
            | [] \<Rightarrow> [[x]]))"

text \<open>The inverse, \<^verbatim>\<open>c.join(parts)\<close>, to say what the pieces are.\<close>

fun join_on :: "char \<Rightarrow> string list \<Rightarrow> string" where
  "join_on c [] = []"
| "join_on c [p] = p"
| "join_on c (p # q # ps) = p @ c # join_on c (q # ps)"

text \<open>
  \<^verbatim>\<open>s.strip()\<close> removes leading and trailing whitespace; the addresses are taken to be
  ASCII text, where the whitespace characters are the space and the control characters
  9 to 13 and 28 to 31.
\<close>

definition is_space :: "char \<Rightarrow> bool" where
  "is_space c \<longleftrightarrow> of_char c \<in> set [32, 9, 10, 11, 12, 13, 28, 29, 30, 31 :: nat]"

definition strip :: "string \<Rightarrow> string" where
  "strip s = rev (dropWhile is_space (rev (dropWhile is_space s)))"

text \<open>
  The function applied to the \<open>address\<close> column in
  \<open>calculate_regional_delinquency_kpis\<close> and in \<open>calculate_customer_drilldown_kpis\<close>:
  \<^verbatim>\<open>x.split(',')[-2].strip() if pd.notna(x) and len(x.split(',')) >= 2 else 'Unknown'\<close>.
\<close>

definition extract_region :: "string option \<Rightarrow> string" where
  "extract_region x =
     (case x of
        None \<Rightarrow> ''Unknown''
      | Some a \<Rightarrow>
          let parts = split_on (CHR '','') a
          in if length parts \<ge> 2 then strip (parts ! (length parts - 2)) else ''Unknown'')"

definition region_column :: "dim_customer list \<Rightarrow> string list" where
  "region_column rows = map (\<lambda>c. extract_region (dc_address c)) rows"

section \<open>Sample rows\<close>

text \<open>Two versions of one loan and of one customer, and repayments of the loan.\<close>

definition loan_T1 :: dim_loan where
  "loan_T1 = \<lparr>dl_loan_id = ''L1'', dl_customer_id = ''C1'', dl_loan_amount = Some 1000,
     dl_interest_rate = Some 10, dl_term_months = Some 12, dl_approval_status = Some ''APPROVED'',
     dl_updated_date = Some 1\<rparr>"

definition loan_T2 :: dim_loan where
  "loan_T2 = \<lparr>dl_loan_id = ''L1'', dl_customer_id = ''C1'', dl_loan_amount = Some 2000,
     dl_interest_rate = Some 8, dl_term_months = Some 24, dl_approval_status = Some ''APPROVED'',
     dl_updated_date = Some 2\<rparr>"

definition cust_T1 :: dim_customer where
  "cust_T1 = \<lparr>dc_customer_id = ''C1'', dc_address = Some ''1 Main St, Salem, OR 97301'',
     dc_credit_score = Some 700, dc_updated_date = Some 1\<rparr>"

definition cust_T2 :: dim_customer where
  "cust_T2 = \<lparr>dc_customer_id = ''C1'', dc_address = Some ''9 Oak Ave, Salem, OR 97301'',
     dc_credit_score = Some 720, dc_updated_date = Some 2\<rparr>"

definition pay_1 :: repayment where
  "pay_1 = \<lparr>repayment_id = ''R1'', loan_id = ''L1'', customer_id = ''C1'', due_date = Some 1,
     payment_date = Some 1, amount_paid = Some 50, status = ''PAID'', days_past_due = Some 0\<rparr>"

definition pay_2 :: repayment where
  "pay_2 = \<lparr>repayment_id = ''R2'', loan_id = ''L1'', customer_id = ''C1'', due_date = Some 2,
     payment_date = Some 2, amount_paid = Some 60, status = ''PAID'', days_past_due = Some 0\<rparr>"

text \<open>The loan of the specification's scenario: 1200 at 12 percent, one payment of 100.\<close>

definition loan_1200 :: dim_loan where
  "loan_1200 = \<lparr>dl_loan_id = ''L1'', dl_customer_id = ''C1'', dl_loan_amount = Some 1200,
     dl_interest_rate = Some 12, dl_term_months = Some 12, dl_approval_status = Some ''APPROVED'',
     dl_updated_date = Some 1\<rparr>"

definition pay_100 :: repayment where
  "pay_100 = \<lparr>repayment_id = ''R1'', loan_id = ''L1'', customer_id = ''C1'', due_date = Some 1,
     payment_date = Some 1, amount_paid = Some 100, status = ''PAID'', days_past_due = Some 0\<rparr>"

text \<open>A second payment of the same loan, of 5, on the same day.\<close>

definition pay_5 :: repayment where
  "pay_5 = \<lparr>repayment_id = ''R2'', loan_id = ''L1'', customer_id = ''C1'', due_date = Some 1,
     payment_date = Some 1, amount_paid = Some 5, status = ''PAID'', days_past_due = Some 0\<rparr>"

text \<open>A payment of a loan that DimLoan does not know.\<close>

definition pay_orphan :: repayment where
  "pay_orphan = \<lparr>repayment_id = ''R9'', loan_id = ''L9'', customer_id = ''C9'', due_date = Some 1,
     payment_date = Some 3, amount_paid = Some 40, status = ''PAID'', days_past_due = Some 2\<rparr>"


text \<open>The address of the specification's scenario.\<close>

definition elm_street :: string where
  "elm_street = ''12 Elm St, Springfield, IL 62701''"

section \<open>Properties of the upsert\<close>

subsection \<open>Deduplication and the descending sort\<close>

lemma drop_duplicates_set_subset: "set (drop_duplicates key xs) \<subseteq> set xs"
  by (induction key xs rule: drop_duplicates.induct) auto

lemma drop_duplicates_keys: "key ` set (drop_duplicates key xs) = key ` set xs"
  by (induction key xs rule: drop_duplicates.induct) auto

lemma drop_duplicates_distinct: "distinct (map key (drop_duplicates key xs))"
proof (induction key xs rule: drop_duplicates.induct)
  case (1 key)
  show ?case by simp
next
  case (2 key r rs)
  have "key r \<notin> key ` set (drop_duplicates key (filter (\<lambda>x. key x \<noteq> key r) rs))"
    by (auto simp: drop_duplicates_keys)
  with 2 show ?case by simp
qed

lemma drop_duplicates_filter_key:
  "filter (\<lambda>x. key x = k) (drop_duplicates key xs) = take 1 (filter (\<lambda>x. key x = k) xs)"
proof (induction key xs rule: drop_duplicates.induct)
  case (1 key)
  show ?case by simp
next
  case (2 key r rs)
  show ?case
  proof (cases "key r = k")
    case True
    have "filter (\<lambda>x. key x = k) (filter (\<lambda>x. key x \<noteq> key r) rs) = []"
      using True by (auto simp: filter_empty_conv)
    with 2 True show ?thesis by simp
  next
    case False
    have "filter (\<lambda>x. key x = k) (filter (\<lambda>x. key x \<noteq> key r) rs) = filter (\<lambda>x. key x = k) rs"
      using False by (auto intro: filter_cong)
    with 2 False show ?thesis by simp
  qed
qed

lemma drop_duplicates_sorted:
  "sorted (map f xs) \<Longrightarrow> sorted (map f (drop_duplicates key xs))"
proof (induction key xs rule: drop_duplicates.induct)
  case (1 key)
  show ?case by simp
next
  case (2 key r rs)
  from 2(2) have s: "sorted (map f rs)" and le: "\<forall>x\<in>set rs. f r \<le> f x" by auto
  have "sorted (map f (filter (\<lambda>x. key x \<noteq> key r) rs))"
    using s by (simp add: sorted_filter)
  then have "sorted (map f (drop_duplicates key (filter (\<lambda>x. key x \<noteq> key r) rs)))"
    by (rule 2(1))
  moreover have "\<forall>x\<in>set (drop_duplicates key (filter (\<lambda>x. key x \<noteq> key r) rs)). f r \<le> f x"
    using le drop_duplicates_set_subset[of key "filter (\<lambda>x. key x \<noteq> key r) rs"] by auto
  ultimately show ?case by simp
qed

text \<open>The first row of a key group in a sorted table has the least rank of the group.\<close>
lemma sorted_group_head_least:
  assumes "sorted (map f xs)" and "filter P xs = m # rest" and "x \<in> set xs" and "P x"
  shows "f m \<le> f x"
proof -
  have "sorted (map f (filter P xs))" using assms(1) by (simp add: sorted_filter)
  then have "\<forall>y\<in>set rest. f m \<le> f y" using assms(2) by simp
  moreover have "x \<in> set (m # rest)" 
  proof -
    have "x \<in> set (filter P xs)" using assms(3,4) by simp
    then show ?thesis using assms(2) by simp
  qed
  ultimately show ?thesis by auto
qed

lemma sorted_sort_values_desc:
  "sorted (map (\<lambda>r. na_last_desc (col r)) (sort_values_desc col xs))"
  by (simp add: sort_values_desc_def)

lemma set_sort_values_desc: "set (sort_values_desc col xs) = set xs"
  by (simp add: sort_values_desc_def)

lemma filter_sort_values_desc:
  "filter P (sort_values_desc col xs) = sort_values_desc col (filter P xs)"
  by (simp add: sort_values_desc_def filter_sort)

lemma merge_survivor_most_recent:
  assumes "m \<in> set (drop_duplicates key (sort_values_desc col xs))"
    and "x \<in> set xs" and "key x = key m"
  shows "na_last_desc (col m) \<le> na_last_desc (col x)"
proof -
  let ?P = "\<lambda>y. key y = key m"
  let ?s = "sort_values_desc col xs"
  have "m \<in> set (filter ?P (drop_duplicates key ?s))" using assms(1) by simp
  then have "m \<in> set (take 1 (filter ?P ?s))" by (simp only: drop_duplicates_filter_key)
  then obtain rest where "filter ?P ?s = m # rest"
    by (cases "filter ?P ?s") auto
  moreover have "x \<in> set ?s" using assms(2) by (simp add: set_sort_values_desc)
  ultimately show ?thesis
    using sorted_group_head_least[OF sorted_sort_values_desc, of ?P col xs m rest x] assms(3)
    by simp
qed

lemma distinct_key_group:
  "distinct (map key xs) \<Longrightarrow>
     filter (\<lambda>x. key x = k) xs = [] \<or> (\<exists>m. filter (\<lambda>x. key x = k) xs = [m])"
proof (induction xs)
  case Nil
  show ?case by simp
next
  case (Cons a xs)
  show ?case
  proof (cases "key a = k")
    case True
    with Cons.prems have "\<forall>x\<in>set xs. key x \<noteq> k" by (metis distinct.simps(2) imageI list.simps(9) set_map)
    then have "filter (\<lambda>x. key x = k) xs = []" by (simp add: filter_empty_conv)
    with True show ?thesis by simp
  next
    case False
    with Cons show ?thesis by simp
  qed
qed






subsection \<open>The first run\<close>


subsection \<open>Merging with persisted rows\<close>

lemma merge_latest_per_key:
  "latest_per_key key col xs (drop_duplicates key (sort_values_desc col xs))"
  unfolding latest_per_key_def
proof (intro conjI ballI impI)
  show "distinct (map key (drop_duplicates key (sort_values_desc col xs)))"
    by (rule drop_duplicates_distinct)
  show "set (drop_duplicates key (sort_values_desc col xs)) \<subseteq> set xs"
    using drop_duplicates_set_subset[of key "sort_values_desc col xs"]
    by (simp add: set_sort_values_desc)
  show "key ` set (drop_duplicates key (sort_values_desc col xs)) = key ` set xs"
    by (simp add: drop_duplicates_keys set_sort_values_desc)
next
  fix m x
  assume "m \<in> set (drop_duplicates key (sort_values_desc col xs))" "x \<in> set xs" "key x = key m"
  then show "na_last_desc (col m) \<le> na_last_desc (col x)"
    by (rule merge_survivor_most_recent)
qed

lemma latest_per_key_resort:
  assumes "latest_per_key key col xs res" and "mset res' = mset res"
  shows "latest_per_key key col xs res'"
proof -
  have s: "set res' = set res" using assms(2) by (rule mset_eq_setD)
  have "mset (map key res') = mset (map key res)" using assms(2) by simp
  then have "distinct (map key res') \<longleftrightarrow> distinct (map key res)"
    by (rule mset_eq_imp_distinct_iff)
  with assms(1) s show ?thesis by (simp add: latest_per_key_def)
qed

lemma merge_sorted_desc:
  "sorted (map (\<lambda>r. na_last_desc (col r)) (drop_duplicates key (sort_values_desc col xs)))"
  by (rule drop_duplicates_sorted) (rule sorted_sort_values_desc)

lemma mset_sort_values_loan_date: "mset (sort_values_loan_date l p xs) = mset xs"
  by (simp add: sort_values_loan_date_def)

lemma sorted_sort_values_loan_date:
  "sorted (map (\<lambda>r. (l r, na_last (p r))) (sort_values_loan_date l p xs))"
  by (simp add: sort_values_loan_date_def)

lemma dim_customer_upsert_merge:
  "files \<noteq> [] \<Longrightarrow> apply_dim_customer_upsert (Files files) new =
     drop_duplicates dc_customer_id (sort_values_desc dc_updated_date (concat files @ new))"
  by (simp add: apply_dim_customer_upsert_def)

lemma dim_loan_upsert_merge:
  "files \<noteq> [] \<Longrightarrow> apply_dim_loan_upsert (Files files) new =
     drop_duplicates dl_loan_id (sort_values_desc dl_updated_date (concat files @ new))"
  by (simp add: apply_dim_loan_upsert_def)

lemma fact_upsert_merge:
  "files \<noteq> [] \<Longrightarrow> apply_fact_loan_performance_upsert (Files files) new =
     sort_values_loan_date loan_id payment_date
       (drop_duplicates repayment_id (sort_values_desc payment_date (concat files @ new)))"
  by (simp add: apply_fact_loan_performance_upsert_def)

text \<open>
  C5, as the code has it. When at least one persisted parquet file exists and is read,
  each upsert returns the persisted rows followed by the new batch, sorted descending by
  the recency column (\<open>updated_date\<close> for the dimensions, \<open>payment_date\<close> for the
  facts) and deduplicated on the key keeping the first row; the fact table is then sorted
  again, ascending by (\<open>loan_id\<close>, \<open>payment_date\<close>). The result has one row per key, the
  most recent one. An existing DimLoan row merged with a newer row of the same loan
  yields exactly the newer row.
\<close>

theorem upsert_keeps_latest_per_key:
  assumes "cfiles \<noteq> []" and "lfiles \<noteq> []" and "ffiles \<noteq> []"
  shows
    "apply_dim_customer_upsert (Files cfiles) cnew =
       drop_duplicates dc_customer_id (sort_values_desc dc_updated_date (concat cfiles @ cnew))
     \<and> latest_per_key dc_customer_id dc_updated_date (concat cfiles @ cnew)
          (apply_dim_customer_upsert (Files cfiles) cnew)
     \<and> sorted (map (\<lambda>r. na_last_desc (dc_updated_date r))
          (apply_dim_customer_upsert (Files cfiles) cnew))
     \<and> apply_dim_loan_upsert (Files lfiles) lnew =
       drop_duplicates dl_loan_id (sort_values_desc dl_updated_date (concat lfiles @ lnew))
     \<and> latest_per_key dl_loan_id dl_updated_date (concat lfiles @ lnew)
          (apply_dim_loan_upsert (Files lfiles) lnew)
     \<and> sorted (map (\<lambda>r. na_last_desc (dl_updated_date r))
          (apply_dim_loan_upsert (Files lfiles) lnew))
     \<and> apply_fact_loan_performance_upsert (Files ffiles) fnew =
       sort_values_loan_date loan_id payment_date
         (drop_duplicates repayment_id (sort_values_desc payment_date (concat ffiles @ fnew)))
     \<and> latest_per_key repayment_id payment_date (concat ffiles @ fnew)
          (apply_fact_loan_performance_upsert (Files ffiles) fnew)
     \<and> sorted (map (\<lambda>r. (loan_id r, na_last (payment_date r)))
          (apply_fact_loan_performance_upsert (Files ffiles) fnew))
     \<and> (dl_loan_id e = dl_loan_id n \<and> dl_updated_date e = Some t1 \<and> dl_updated_date n = Some t2
          \<and> t1 < t2 \<longrightarrow> apply_dim_loan_upsert (Files [[e]]) [n] = [n])"
proof -
  have c: "latest_per_key dc_customer_id dc_updated_date (concat cfiles @ cnew)
          (apply_dim_customer_upsert (Files cfiles) cnew)"
    by (simp only: dim_customer_upsert_merge[OF assms(1)] merge_latest_per_key)
  have l: "latest_per_key dl_loan_id dl_updated_date (concat lfiles @ lnew)
          (apply_dim_loan_upsert (Files lfiles) lnew)"
    by (simp only: dim_loan_upsert_merge[OF assms(2)] merge_latest_per_key)
  have f: "latest_per_key repayment_id payment_date (concat ffiles @ fnew)
          (apply_fact_loan_performance_upsert (Files ffiles) fnew)"
    unfolding fact_upsert_merge[OF assms(3)]
    by (rule latest_per_key_resort[OF merge_latest_per_key]) (rule mset_sort_values_loan_date)
  have cs: "sorted (map (\<lambda>r. na_last_desc (dc_updated_date r))
          (apply_dim_customer_upsert (Files cfiles) cnew))"
    by (simp only: dim_customer_upsert_merge[OF assms(1)] merge_sorted_desc)
  have ls: "sorted (map (\<lambda>r. na_last_desc (dl_updated_date r))
          (apply_dim_loan_upsert (Files lfiles) lnew))"
    by (simp only: dim_loan_upsert_merge[OF assms(2)] merge_sorted_desc)
  have fs: "sorted (map (\<lambda>r. (loan_id r, na_last (payment_date r)))
          (apply_fact_loan_performance_upsert (Files ffiles) fnew))"
    by (simp only: fact_upsert_merge[OF assms(3)] sorted_sort_values_loan_date)
  have sc: "dl_loan_id e = dl_loan_id n \<and> dl_updated_date e = Some t1 \<and> dl_updated_date n = Some t2
          \<and> t1 < t2 \<longrightarrow> apply_dim_loan_upsert (Files [[e]]) [n] = [n]"
    by (simp add: apply_dim_loan_upsert_def sort_values_desc_def na_last_desc_def)
  show ?thesis
    using c l f cs ls fs sc
      dim_customer_upsert_merge[OF assms(1)] dim_loan_upsert_merge[OF assms(2)]
      fact_upsert_merge[OF assms(3)]
    by blast
qed

theorem upsert_keeps_latest_per_key_witness:
  "apply_dim_loan_upsert (Files [[loan_T1]]) [loan_T2] = [loan_T2]
   \<and> apply_dim_customer_upsert (Files [[cust_T1]]) [cust_T2] = [cust_T2]
   \<and> apply_fact_loan_performance_upsert (Files [[pay_2]]) [pay_1, pay_2] = [pay_1, pay_2]"
  using upsert_keeps_latest_per_key[of "[[cust_T1]]" "[[loan_T1]]" "[[pay_2]]"
      "[cust_T2]" "[loan_T2]" "[pay_1, pay_2]" loan_T1 loan_T2 1 2]
  by (simp add: loan_T1_def loan_T2_def cust_T1_def cust_T2_def pay_1_def pay_2_def
      sort_values_desc_def sort_values_loan_date_def na_last_desc_def na_last_def)

text \<open>
  Without a persisted file the batch comes back as it is, so a key can occur twice; and
  the fact table does not come back in descending order of \<open>payment_date\<close>.
\<close>

theorem upsert_first_run_counterexample:
  "\<not> distinct (map dl_loan_id (apply_dim_loan_upsert (Files []) [loan_T1, loan_T2]))
   \<and> apply_dim_loan_upsert (Files []) [loan_T1, loan_T2] \<noteq>
       drop_duplicates dl_loan_id (sort_values_desc dl_updated_date (concat [] @ [loan_T1, loan_T2]))
   \<and> apply_fact_loan_performance_upsert (Files [[pay_1]]) [pay_2] \<noteq>
       drop_duplicates repayment_id (sort_values_desc payment_date (concat [[pay_1]] @ [pay_2]))"
  by (simp add: apply_dim_loan_upsert_def apply_fact_loan_performance_upsert_def
      loan_T1_def loan_T2_def pay_1_def pay_2_def
      sort_values_desc_def sort_values_loan_date_def na_last_desc_def na_last_def)

subsection \<open>Applying the same batch twice\<close>










section \<open>Properties of the amortization engine\<close>

subsection \<open>The loops write the schedule of each loan\<close>

lemma filter_as_positions:
  "filter P xs = map ((!) xs) (filter (\<lambda>i. P (xs ! i)) [0..<length xs])"
proof -
  have "filter P xs = filter P (map ((!) xs) [0..<length xs])" by (simp add: map_nth)
  also have "\<dots> = map ((!) xs) (filter (P \<circ> (!) xs) [0..<length xs])"
    by (simp only: filter_map)
  finally show ?thesis by (simp add: comp_def)
qed

lemma joined_of_update [simp]:
  "joined_of (r\<lparr>interest_paid := a, principal_paid := b, outstanding_balance := c\<rparr>) = joined_of r"
  "joined_of (r\<lparr>outstanding_balance := c, principal_paid := b, interest_paid := a\<rparr>) = joined_of r"
  by (simp_all add: joined_of_def)

lemma joined_of_init_columns [simp]: "joined_of (init_columns r) = r"
  by (simp add: joined_of_def init_columns_def)

lemma rep_joined_of [simp]: "rep (joined_of r) = rep r"
  by (simp add: joined_of_def)

lemma map_joined_of_update:
  "joined_of x = joined_of (f ! i) \<Longrightarrow> map joined_of (f[i := x]) = map joined_of f"
  by (cases "i < length f") (simp_all add: map_update list_update_same_conv list_update_beyond)

lemma amortize_rows_length [simp]: "length (amortize_rows m rb idxs f) = length f"
  by (induction idxs arbitrary: rb f) (simp_all add: Let_def)

lemma amortize_rows_joined: "map joined_of (amortize_rows m rb idxs f) = map joined_of f"
  by (induction idxs arbitrary: rb f) (simp_all add: Let_def map_joined_of_update)

lemma amortize_rows_other: "i \<notin> set idxs \<Longrightarrow> amortize_rows m rb idxs f ! i = f ! i"
  by (induction idxs arbitrary: rb f) (simp_all add: Let_def)

lemma amortize_rows_outputs:
  "distinct idxs \<Longrightarrow> \<forall>i\<in>set idxs. i < length f \<Longrightarrow>
   map (\<lambda>i. outputs (amortize_rows m rb idxs f ! i)) idxs =
   amortization_fold m rb (map (\<lambda>i. amount_paid (rep (f ! i))) idxs)"
proof (induction idxs arbitrary: rb f)
  case Nil
  show ?case by simp
next
  case (Cons i idxs)
  define amount where "amount = amount_paid (rep (f ! i))"
  define ip where "ip = py_min amount (fmul rb m)"
  define pp where "pp = fsub amount ip"
  define rb' where "rb' = py_max (Some 0) (fsub rb pp)"
  define f' where "f' = f[i := (f ! i)\<lparr>interest_paid := ip, principal_paid := pp,
                                     outstanding_balance := rb'\<rparr>]"
  have unfold: "amortize_rows m rb (i # idxs) f = amortize_rows m rb' idxs f'"
    by (simp add: Let_def amount_def ip_def pp_def rb'_def f'_def)
  have fold: "amortization_fold m rb (amount # amounts) =
      (ip, pp, rb') # amortization_fold m rb' amounts" for amounts
    by (simp add: Let_def ip_def pp_def rb'_def)
  from Cons.prems have i: "i \<notin> set idxs" "i < length f" and d: "distinct idxs"
    and b: "\<forall>j\<in>set idxs. j < length f'" by (auto simp: f'_def)
  have head: "outputs (amortize_rows m rb' idxs f' ! i) = (ip, pp, rb')"
    using i by (simp add: amortize_rows_other f'_def outputs_def)
  have "map (\<lambda>j. amount_paid (rep (f' ! j))) idxs = map (\<lambda>j. amount_paid (rep (f ! j))) idxs"
  proof (rule map_cong[OF refl])
    fix j assume "j \<in> set idxs"
    with i(1) have "j \<noteq> i" by auto
    then show "amount_paid (rep (f' ! j)) = amount_paid (rep (f ! j))" by (simp add: f'_def)
  qed
  with Cons.IH[OF d b, of rb'] have tail:
    "map (\<lambda>j. outputs (amortize_rows m rb' idxs f' ! j)) idxs =
     amortization_fold m rb' (map (\<lambda>j. amount_paid (rep (f ! j))) idxs)" by simp
  show ?case
    unfolding unfold using head tail fold[of "map (\<lambda>j. amount_paid (rep (f ! j))) idxs"]
    by (simp add: amount_def)
qed

lemma loan_rows_joined: "map joined_of (loan_rows l f) = loan_rows l (map joined_of f)"
  by (simp add: loan_rows_def filter_map comp_def)

lemma loan_rows_positions:
  "loan_rows l f = map ((!) f) (filter (\<lambda>i. loan_id (rep (f ! i)) = l) [0..<length f])"
  unfolding loan_rows_def by (rule filter_as_positions)

lemma same_joined_same_mask:
  assumes "map joined_of f' = map joined_of f"
  shows "filter (\<lambda>i. loan_id (rep (f' ! i)) = l) [0..<length f'] =
         filter (\<lambda>i. loan_id (rep (f ! i)) = l) [0..<length f]"
proof -
  have len: "length f' = length f" using assms by (rule map_eq_imp_length_eq)
  have "rep (f' ! i) = rep (f ! i)" if "i < length f" for i
  proof -
    have "joined_of (f' ! i) = joined_of (f ! i)"
      using assms that len by (metis nth_map)
    then show ?thesis by (metis rep_joined_of)
  qed
  then show ?thesis unfolding len by (auto intro: filter_cong)
qed

lemma loan_schedule_positions:
  assumes mask: "filter (\<lambda>i. loan_id (rep (f ! i)) = lid) [0..<length f] = i0 # rest"
  shows "loan_schedule (map joined_of (loan_rows lid f)) =
     (case (loan_amount (f ! i0), interest_rate (f ! i0)) of
        (Some amount, Some annual_rate) \<Rightarrow>
          amortization_fold (Some (annual_rate / 100 / 12)) (Some amount)
            (map (\<lambda>r. amount_paid (rep r)) (loan_rows lid f))
      | _ \<Rightarrow> map (\<lambda>r. (Some 0, amount_paid (rep r), Some 0)) (loan_rows lid f))"
proof -
  have rows: "loan_rows lid f = f ! i0 # map ((!) f) rest"
    by (simp add: loan_rows_positions mask)
  have [simp]: "loan_amount (joined_of r) = loan_amount r"
    "interest_rate (joined_of r) = interest_rate r" for r :: amort_row
    by (simp_all add: joined_of_def)
  show ?thesis
    unfolding loan_schedule_def rows
    by (simp add: comp_def split: option.splits)
qed

lemma amortize_loan_result:
  assumes "lid \<in> (\<lambda>r. loan_id (rep r)) ` set f"
  shows "\<exists>f'. amortize_loan lid f = Some f' \<and> map joined_of f' = map joined_of f
           \<and> map outputs (loan_rows lid f') = loan_schedule (map joined_of (loan_rows lid f))
           \<and> (\<forall>l. l \<noteq> lid \<longrightarrow> loan_rows l f' = loan_rows l f)"
proof -
  let ?mask = "filter (\<lambda>i. loan_id (rep (f ! i)) = lid) [0..<length f]"
  have "loan_rows lid f \<noteq> []" using assms by (auto simp: loan_rows_def filter_empty_conv)
  then have "?mask \<noteq> []" by (simp add: loan_rows_positions)
  then obtain i0 rest where mask: "?mask = i0 # rest" by (cases ?mask) auto
  note sched = loan_schedule_positions[OF mask]
  show ?thesis
  proof (cases "loan_amount (f ! i0) = None \<or> interest_rate (f ! i0) = None")
    case True
    let ?h = "\<lambda>r. if loan_id (rep r) = lid
                then r\<lparr>outstanding_balance := Some 0, principal_paid := amount_paid (rep r),
                       interest_paid := Some 0\<rparr>
                else r"
    have res: "amortize_loan lid f = Some (map ?h f)"
      using True by (simp add: amortize_loan_def mask)
    have j: "map joined_of (map ?h f) = map joined_of f" by simp
    have r: "rep (?h r) = rep r" for r by simp
    have rows: "loan_rows l (map ?h f) = map ?h (loan_rows l f)" for l
      by (simp only: loan_rows_def filter_map comp_def r)
    have own: "map outputs (loan_rows lid (map ?h f)) =
        map (\<lambda>r. (Some 0, amount_paid (rep r), Some 0)) (loan_rows lid f)"
      unfolding rows by (simp add: loan_rows_def outputs_def)
    have others: "loan_rows l (map ?h f) = loan_rows l f" if "l \<noteq> lid" for l
      unfolding rows using that by (auto intro!: map_idI simp: loan_rows_def)
    have "loan_schedule (map joined_of (loan_rows lid f)) =
        map (\<lambda>r. (Some 0, amount_paid (rep r), Some 0)) (loan_rows lid f)"
      using True unfolding sched by (auto split: option.splits)
    with res j own others show ?thesis by simp
  next
    case False
    then obtain amount annual_rate where p: "loan_amount (f ! i0) = Some amount"
      "interest_rate (f ! i0) = Some annual_rate" by auto
    let ?f' = "amortize_rows (Some (annual_rate / 100 / 12)) (Some amount) ?mask f"
    have res: "amortize_loan lid f = Some ?f'"
      unfolding amortize_loan_def Let_def by (simp add: mask p del: amortize_rows.simps)
    have j: "map joined_of ?f' = map joined_of f" by (rule amortize_rows_joined)
    have pos: "loan_rows l ?f' = map ((!) ?f') (filter (\<lambda>i. loan_id (rep (f ! i)) = l) [0..<length f])"
      for l
      by (simp only: loan_rows_positions same_joined_same_mask[OF j])
    have dm: "distinct ?mask" by simp
    have bm: "\<forall>i\<in>set ?mask. i < length f" by simp
    have "map outputs (loan_rows lid ?f') = map (\<lambda>i. outputs (?f' ! i)) ?mask"
      by (simp only: pos map_map comp_def)
    also have "\<dots> = amortization_fold (Some (annual_rate / 100 / 12)) (Some amount)
          (map (\<lambda>i. amount_paid (rep (f ! i))) ?mask)"
      by (rule amortize_rows_outputs[OF dm bm])
    also have "map (\<lambda>i. amount_paid (rep (f ! i))) ?mask =
        map (\<lambda>r. amount_paid (rep r)) (loan_rows lid f)"
      by (simp add: loan_rows_positions comp_def)
    finally have own: "map outputs (loan_rows lid ?f') =
        loan_schedule (map joined_of (loan_rows lid f))"
      unfolding sched by (simp add: p)
    have others: "loan_rows l ?f' = loan_rows l f" if "l \<noteq> lid" for l
    proof -
      have "map ((!) ?f') (filter (\<lambda>i. loan_id (rep (f ! i)) = l) [0..<length f]) =
            map ((!) f) (filter (\<lambda>i. loan_id (rep (f ! i)) = l) [0..<length f])"
      proof (rule map_cong[OF refl])
        fix i assume "i \<in> set (filter (\<lambda>i. loan_id (rep (f ! i)) = l) [0..<length f])"
        with that have "i \<notin> set ?mask" by auto
        then show "?f' ! i = f ! i" by (rule amortize_rows_other)
      qed
      then show ?thesis by (simp only: pos loan_rows_positions[of l f])
    qed
    from res j own others show ?thesis by simp
  qed
qed

lemma loan_ids_joined:
  "map joined_of f' = map joined_of f \<Longrightarrow>
     (\<lambda>r. loan_id (rep r)) ` set f' = (\<lambda>r. loan_id (rep r)) ` set f"
proof -
  assume a: "map joined_of f' = map joined_of f"
  have "(\<lambda>r. loan_id (rep r)) ` set g = (\<lambda>r. loan_id (rep r)) ` set (map joined_of g)"
    for g :: "amort_row list" by (simp add: image_image)
  with a show ?thesis by metis
qed

lemma amortize_loans_result:
  assumes "distinct lids" and "set lids \<subseteq> (\<lambda>r. loan_id (rep r)) ` set f"
  shows "\<exists>out. amortize_loans lids f = Some out \<and> map joined_of out = map joined_of f
           \<and> (\<forall>l. map outputs (loan_rows l out) =
                 (if l \<in> set lids then loan_schedule (map joined_of (loan_rows l f))
                  else map outputs (loan_rows l f)))"
  using assms
proof (induction lids arbitrary: f)
  case Nil
  show ?case by simp
next
  case (Cons lid lids)
  from Cons.prems have lid: "lid \<in> (\<lambda>r. loan_id (rep r)) ` set f" by simp
  from amortize_loan_result[OF lid] obtain f1 where
    f1: "amortize_loan lid f = Some f1" and j1: "map joined_of f1 = map joined_of f"
    and own: "map outputs (loan_rows lid f1) = loan_schedule (map joined_of (loan_rows lid f))"
    and others: "\<And>l. l \<noteq> lid \<Longrightarrow> loan_rows l f1 = loan_rows l f" by blast
  from Cons.prems have d: "distinct lids" and nin: "lid \<notin> set lids" by simp_all
  from Cons.prems have sub: "set lids \<subseteq> (\<lambda>r. loan_id (rep r)) ` set f1"
    by (simp add: loan_ids_joined[OF j1])
  from Cons.IH[OF d sub] obtain out where
    out: "amortize_loans lids f1 = Some out" and jo: "map joined_of out = map joined_of f1"
    and rows: "\<And>l. map outputs (loan_rows l out) =
                 (if l \<in> set lids then loan_schedule (map joined_of (loan_rows l f1))
                  else map outputs (loan_rows l f1))" by blast
  have "map outputs (loan_rows l out) =
          (if l \<in> set (lid # lids) then loan_schedule (map joined_of (loan_rows l f))
           else map outputs (loan_rows l f))" for l
  proof (cases "l = lid")
    case True
    with nin rows[of l] own show ?thesis by simp
  next
    case False
    with rows[of l] others[OF False] show ?thesis by simp
  qed
  with f1 out jo j1 show ?case by simp
qed

lemma set_unique: "set (unique xs) = set xs"
  using drop_duplicates_keys[of "\<lambda>x. x" xs] by (simp add: unique_def)

lemma distinct_unique: "distinct (unique xs)"
  using drop_duplicates_distinct[of "\<lambda>x. x" xs] by (simp add: unique_def)

lemma calculate_amortization_result:
  "\<exists>out. calculate_amortization df dim_loan = Some out
     \<and> map joined_of out = sorted_fact df dim_loan
     \<and> (\<forall>l. map outputs (loan_rows l out) = loan_schedule (loan_rows l (sorted_fact df dim_loan)))"
proof -
  let ?f = "map init_columns (sorted_fact df dim_loan)"
  let ?lids = "unique (map (\<lambda>r. loan_id (rep r)) ?f)"
  have d: "distinct ?lids" by (rule distinct_unique)
  have s: "set ?lids = (\<lambda>r. loan_id (rep r)) ` set ?f"
    by (simp only: set_unique set_map)
  have j: "map joined_of ?f = sorted_fact df dim_loan" by (simp add: comp_def)
  from amortize_loans_result[OF d] s obtain out where
    out: "amortize_loans ?lids ?f = Some out" and jo: "map joined_of out = map joined_of ?f"
    and rows: "\<And>l. map outputs (loan_rows l out) =
                 (if l \<in> set ?lids then loan_schedule (map joined_of (loan_rows l ?f))
                  else map outputs (loan_rows l ?f))" by blast
  have "map outputs (loan_rows l out) = loan_schedule (loan_rows l (sorted_fact df dim_loan))" for l
  proof (cases "l \<in> set ?lids")
    case True
    with rows[of l] show ?thesis by (simp only: loan_rows_joined j if_True)
  next
    case False
    then have e: "loan_rows l ?f = []"
      unfolding s by (auto simp: loan_rows_def filter_empty_conv)
    then have "map joined_of (loan_rows l ?f) = []" by simp
    then have "loan_rows l (sorted_fact df dim_loan) = []" by (simp only: loan_rows_joined j)
    with False rows[of l] e show ?thesis by (simp add: loan_schedule_def)
  qed
  with out jo j show ?thesis by (simp add: calculate_amortization_def Let_def)
qed

subsection \<open>One step of the fold\<close>


lemma principal_not_negative:
  "fsub a (py_min a i) = None \<or> (\<exists>p. fsub a (py_min a i) = Some p \<and> 0 \<le> p)"
  by (cases a; cases i) (simp_all add: fsub_def py_min_def flt_def)

lemma new_balance_bounds:
  assumes "pp = None \<or> (\<exists>p. pp = Some p \<and> 0 \<le> p)"
  shows "\<exists>b. py_max (Some 0) (fsub rb pp) = Some b \<and> 0 \<le> b \<and>
             (\<forall>r. rb = Some r \<and> 0 \<le> r \<longrightarrow> b \<le> r)"
  using assms by (cases rb; cases pp) (auto simp: fsub_def py_max_def flt_def)


lemma fold_balances:
  "\<exists>bs. map (\<lambda>(ip, pp, ob). ob) (amortization_fold m rb amounts) = map Some bs
        \<and> (\<forall>b\<in>set bs. 0 \<le> b) \<and> sorted_wrt (\<lambda>x y. y \<le> x) bs
        \<and> (\<forall>r. rb = Some r \<and> 0 \<le> r \<longrightarrow> (\<forall>b\<in>set bs. b \<le> r))"
proof (induction amounts arbitrary: rb)
  case Nil
  show ?case by simp
next
  case (Cons a amounts)
  define ip where "ip = py_min a (fmul rb m)"
  define pp where "pp = fsub a ip"
  define rb' where "rb' = py_max (Some 0) (fsub rb pp)"
  have unfold: "amortization_fold m rb (a # amounts) =
      (ip, pp, rb') # amortization_fold m rb' amounts"
    by (simp add: Let_def ip_def pp_def rb'_def)
  from new_balance_bounds[OF principal_not_negative, of rb a "fmul rb m"]
  obtain b where b: "rb' = Some b" "0 \<le> b" "\<forall>r. rb = Some r \<and> 0 \<le> r \<longrightarrow> b \<le> r"
    unfolding rb'_def pp_def ip_def by blast
  from Cons.IH[of rb'] obtain bs where
    bs: "map (\<lambda>(ip, pp, ob). ob) (amortization_fold m rb' amounts) = map Some bs"
      "\<forall>x\<in>set bs. 0 \<le> x" "sorted_wrt (\<lambda>x y. y \<le> x) bs"
      "\<forall>r. rb' = Some r \<and> 0 \<le> r \<longrightarrow> (\<forall>x\<in>set bs. x \<le> r)" by blast
  from bs(4) b have le: "\<forall>x\<in>set bs. x \<le> b" by simp
  have "map (\<lambda>(ip, pp, ob). ob) (amortization_fold m rb (a # amounts)) = map Some (b # bs)"
    unfolding unfold using b(1) bs(1) by simp
  moreover have "\<forall>x\<in>set (b # bs). 0 \<le> x" using b(2) bs(2) by simp
  moreover have "sorted_wrt (\<lambda>x y. y \<le> x) (b # bs)" using le bs(3) by simp
  moreover have "\<forall>r. rb = Some r \<and> 0 \<le> r \<longrightarrow> (\<forall>x\<in>set (b # bs). x \<le> r)"
    using b(3) le by fastforce
  ultimately show ?case by blast
qed

lemma non_increasing_balancesI:
  "(\<forall>b\<in>set bs. 0 \<le> b) \<Longrightarrow> sorted_wrt (\<lambda>x y. y \<le> x) bs \<Longrightarrow>
     non_increasing_balances (map Some bs)"
proof (induction bs)
  case Nil
  show ?case by simp
next
  case (Cons b bs)
  then show ?case by (cases bs) (simp_all add: fle_def)
qed

subsection \<open>The schedule of a loan\<close>

lemma loan_schedule_cases:
  "(\<exists>m rb. loan_schedule rows = amortization_fold m rb (map (\<lambda>r. amount_paid (rep r)) rows))
   \<or> loan_schedule rows = map (\<lambda>r. (Some 0, amount_paid (rep r), Some 0)) rows"
proof (cases rows)
  case Nil
  then show ?thesis by (simp add: loan_schedule_def)
next
  case (Cons r0 rest)
  show ?thesis
  proof (cases "loan_amount r0")
    case None
    then show ?thesis unfolding loan_schedule_def Cons by simp
  next
    case la: (Some amount)
    show ?thesis
    proof (cases "interest_rate r0")
      case None
      then show ?thesis unfolding loan_schedule_def Cons by (simp add: la)
    next
      case (Some annual_rate)
      have "loan_schedule rows = amortization_fold (Some (annual_rate / 100 / 12)) (Some amount)
          (map (\<lambda>r. amount_paid (rep r)) rows)"
        unfolding loan_schedule_def Cons by (simp add: la Some del: amortization_fold.simps)
      then show ?thesis by blast
    qed
  qed
qed


lemma schedule_balances:
  "non_increasing_balances (map (\<lambda>(ip, pp, ob). ob) (loan_schedule rows))"
proof -
  have e: "map (\<lambda>(ip, pp, ob). ob) (map (\<lambda>r. (Some 0, amount_paid (rep r), Some 0)) rows) =
      map Some (map (\<lambda>r. 0) rows)" by simp
  have "non_increasing_balances (map Some (map (\<lambda>r. 0::real) rows))"
    by (rule non_increasing_balancesI) (simp_all add: sorted_wrt_map sorted_wrt_iff_nth_less)
  then have fb: "non_increasing_balances
      (map (\<lambda>(ip, pp, ob). ob) (map (\<lambda>r. (Some 0, amount_paid (rep r), Some 0)) rows))"
    by (simp only: e)
  have fo: "non_increasing_balances (map (\<lambda>(ip, pp, ob). ob) (amortization_fold m rb amounts))"
    for m rb amounts
    using fold_balances[of m rb amounts] non_increasing_balancesI by metis
  from loan_schedule_cases[of rows] show ?thesis
  proof
    assume "\<exists>m rb. loan_schedule rows =
        amortization_fold m rb (map (\<lambda>r. amount_paid (rep r)) rows)"
    then obtain m rb where "loan_schedule rows =
        amortization_fold m rb (map (\<lambda>r. amount_paid (rep r)) rows)" by blast
    then show ?thesis by (simp only: fo)
  next
    assume "loan_schedule rows = map (\<lambda>r. (Some 0, amount_paid (rep r), Some 0)) rows"
    then show ?thesis by (simp only: fb)
  qed
qed

subsection \<open>The engine and the fold of the specification\<close>







lemmas amort_eval = calculate_amortization_def sorted_fact_def merge_dim_loan_def
  sort_values_loan_date_def na_last_def init_columns_def unique_def amortize_loan_def
  fmul_def fsub_def fadd_def flt_def py_min_def py_max_def Let_def outputs_def
  pay_100_def pay_5_def pay_orphan_def loan_1200_def



text \<open>
  C2. The rows come out in (\<open>loan_id\<close>, \<open>payment_date\<close>) order, and within every loan
  the outstanding balance is a number on every row, never negative, and on each row at
  most what it is on the row before; this holds for the fold and for the fallback.
\<close>

theorem balances_never_increase:
  "\<exists>out. calculate_amortization df dim_loan = Some out
     \<and> sorted (map (\<lambda>r. (loan_id (rep r), na_last (payment_date (rep r)))) out)
     \<and> (\<forall>l. non_increasing_balances (map outstanding_balance (loan_rows l out)))"
proof -
  let ?sf = "sorted_fact df dim_loan"
  from calculate_amortization_result[of df dim_loan] obtain out where
    out: "calculate_amortization df dim_loan = Some out"
    and j: "map joined_of out = ?sf"
    and s: "\<And>l. map outputs (loan_rows l out) = loan_schedule (loan_rows l ?sf)" by blast
  have "map (\<lambda>r. (loan_id (rep r), na_last (payment_date (rep r)))) out =
      map (\<lambda>r. (loan_id (rep r), na_last (payment_date (rep r)))) (map joined_of out)"
    by simp
  also have "\<dots> = map (\<lambda>r. (loan_id (rep r), na_last (payment_date (rep r)))) ?sf"
    by (simp only: j)
  finally have srt: "sorted (map (\<lambda>r. (loan_id (rep r), na_last (payment_date (rep r)))) out)"
    by (simp add: sorted_fact_def sort_values_loan_date_def)
  have "non_increasing_balances (map outstanding_balance (loan_rows l out))" for l
  proof -
    have "map outstanding_balance (loan_rows l out) =
        map (\<lambda>(ip, pp, ob). ob) (map outputs (loan_rows l out))"
      by (simp add: outputs_def)
    then show ?thesis by (simp only: s schedule_balances)
  qed
  with out srt show ?thesis by blast
qed



subsection \<open>The order of the input\<close>

lemma mset_merge_dim_loan:
  assumes "mset df' = mset df"
  shows "mset (merge_dim_loan df' dim_loan) = mset (merge_dim_loan df dim_loan)"
proof -
  have "mset (concat (map g xs)) = sum_mset (image_mset (\<lambda>x. mset (g x)) (mset xs))"
    for g :: "repayment \<Rightarrow> joined_row list" and xs
    by (induction xs) simp_all
  then show ?thesis unfolding merge_dim_loan_def by (simp only: assms)
qed

lemma inj_na_last: "na_last a = na_last b \<Longrightarrow> a = b"
  by (cases a; cases b) (simp_all add: na_last_def)

lemma single_group_of_permutation:
  assumes m: "mset xs' = mset xs" and d: "distinct (map key xs)"
  shows "filter (\<lambda>x. key x = k) xs' = filter (\<lambda>x. key x = k) xs"
proof -
  let ?A = "filter (\<lambda>x. key x = k) xs'" and ?B = "filter (\<lambda>x. key x = k) xs"
  have "mset (map key xs') = mset (map key xs)" using m by simp
  then have "distinct (map key xs') \<longleftrightarrow> distinct (map key xs)"
    by (rule mset_eq_imp_distinct_iff)
  with d have d': "distinct (map key xs')" by simp
  have e: "mset ?A = mset ?B" using m by simp
  from distinct_key_group[OF d', of k] have a: "?A = [] \<or> (\<exists>x. ?A = [x])" .
  from distinct_key_group[OF d, of k] have b: "?B = [] \<or> (\<exists>x. ?B = [x])" .
  from a b e show ?thesis by (elim disjE exE) (simp_all del: mset_filter)
qed

lemma filter_concat_blocks:
  assumes "\<And>x. filter P (g x) = (if Q x then g x else [])"
  shows "filter P (concat (map g xs)) = concat (map g (filter Q xs))"
  by (induction xs) (simp_all add: assms)

lemma filter_merge_dim_loan:
  "filter (\<lambda>j. (loan_id (rep j), na_last (payment_date (rep j))) = c) (merge_dim_loan df dim_loan) =
   merge_dim_loan (filter (\<lambda>r. (loan_id r, na_last (payment_date r)) = c) df) dim_loan"
  unfolding merge_dim_loan_def
proof (rule filter_concat_blocks)
  fix r
  define g where "g = (case filter (\<lambda>d. dl_loan_id d = loan_id r) dim_loan of
         [] \<Rightarrow> [\<lparr>rep = r, loan_amount = None, interest_rate = None, term_months = None\<rparr>]
       | ms \<Rightarrow> map (\<lambda>d. \<lparr>rep = r, loan_amount = dl_loan_amount d,
                    interest_rate = dl_interest_rate d, term_months = dl_term_months d\<rparr>) ms)"
  have all: "\<forall>j\<in>set g. rep j = r" by (auto simp: g_def split: list.splits)
  have "filter (\<lambda>j. (loan_id (rep j), na_last (payment_date (rep j))) = c) g =
      (if (loan_id r, na_last (payment_date r)) = c then g else [])"
  proof (cases "(loan_id r, na_last (payment_date r)) = c")
    case True
    with all have "\<forall>j\<in>set g. (loan_id (rep j), na_last (payment_date (rep j))) = c" by simp
    then have "filter (\<lambda>j. (loan_id (rep j), na_last (payment_date (rep j))) = c) g = g"
      by (rule filter_id_conv[THEN iffD2])
    with True show ?thesis by simp
  next
    case False
    with all have "\<forall>j\<in>set g. (loan_id (rep j), na_last (payment_date (rep j))) \<noteq> c" by simp
    then have "filter (\<lambda>j. (loan_id (rep j), na_last (payment_date (rep j))) = c) g = []"
      by (rule filter_empty_conv[THEN iffD2])
    with False show ?thesis by simp
  qed
  then show "filter (\<lambda>j. (loan_id (rep j), na_last (payment_date (rep j))) = c)
       (case filter (\<lambda>d. dl_loan_id d = loan_id r) dim_loan of
         [] \<Rightarrow> [\<lparr>rep = r, loan_amount = None, interest_rate = None, term_months = None\<rparr>]
       | ms \<Rightarrow> map (\<lambda>d. \<lparr>rep = r, loan_amount = dl_loan_amount d,
                    interest_rate = dl_interest_rate d, term_months = dl_term_months d\<rparr>) ms) =
      (if (loan_id r, na_last (payment_date r)) = c
       then case filter (\<lambda>d. dl_loan_id d = loan_id r) dim_loan of
         [] \<Rightarrow> [\<lparr>rep = r, loan_amount = None, interest_rate = None, term_months = None\<rparr>]
       | ms \<Rightarrow> map (\<lambda>d. \<lparr>rep = r, loan_amount = dl_loan_amount d,
                    interest_rate = dl_interest_rate d, term_months = dl_term_months d\<rparr>) ms
       else [])"
    unfolding g_def .
qed

lemma distinct_sort_keys:
  assumes d: "distinct (map (\<lambda>r. (loan_id r, payment_date r)) df)"
  shows "distinct (map (\<lambda>r. (loan_id r, na_last (payment_date r))) df)"
proof -
  from d have dd: "distinct df" and i: "inj_on (\<lambda>r. (loan_id r, payment_date r)) (set df)"
    by (simp_all add: distinct_map)
  have "inj_on (\<lambda>r. (loan_id r, na_last (payment_date r))) (set df)"
  proof (rule inj_onI)
    fix x y :: "'a repayment_scheme"
    assume x: "x \<in> set df" and y: "y \<in> set df"
      and e: "(loan_id x, na_last (payment_date x)) = (loan_id y, na_last (payment_date y))"
    from e have "(loan_id x, payment_date x) = (loan_id y, payment_date y)"
      by (auto dest: inj_na_last)
    with i x y show "x = y" by (simp add: inj_on_def)
  qed
  with dd show ?thesis by (simp add: distinct_map)
qed

lemma sorted_fact_of_permutation:
  assumes m: "mset df' = mset df"
    and d: "distinct (map (\<lambda>r. (loan_id r, payment_date r)) df)"
  shows "sorted_fact df' dim_loan = sorted_fact df dim_loan"
proof -
  let ?f = "\<lambda>j::joined_row. (loan_id (rep j), na_last (payment_date (rep j)))"
  let ?g = "\<lambda>r::repayment. (loan_id r, na_last (payment_date r))"
  have d0: "distinct (map ?g df)" using d by (rule distinct_sort_keys)
  have "sort_key ?f (merge_dim_loan df' dim_loan) = sort_key ?f (merge_dim_loan df dim_loan)"
  proof (rule properties_for_sort_key)
    show "mset (sort_key ?f (merge_dim_loan df dim_loan)) = mset (merge_dim_loan df' dim_loan)"
      by (simp add: mset_merge_dim_loan[OF m])
    show "sorted (map ?f (sort_key ?f (merge_dim_loan df dim_loan)))" by simp
    fix k
    have "filter (\<lambda>x. ?f x = ?f k) (sort_key ?f (merge_dim_loan df dim_loan)) =
        filter (\<lambda>x. ?f x = ?f k) (merge_dim_loan df dim_loan)"
      by (rule sort_key_stable)
    also have "\<dots> = merge_dim_loan (filter (\<lambda>r. ?g r = ?f k) df) dim_loan"
      by (rule filter_merge_dim_loan)
    also have "filter (\<lambda>r. ?g r = ?f k) df = filter (\<lambda>r. ?g r = ?f k) df'"
      by (rule single_group_of_permutation[OF m d0, symmetric])
    also have "merge_dim_loan (filter (\<lambda>r. ?g r = ?f k) df') dim_loan =
        filter (\<lambda>x. ?f x = ?f k) (merge_dim_loan df' dim_loan)"
      by (rule filter_merge_dim_loan[symmetric])
    finally show "filter (\<lambda>x. ?f k = ?f x) (sort_key ?f (merge_dim_loan df dim_loan)) =
        filter (\<lambda>x. ?f k = ?f x) (merge_dim_loan df' dim_loan)"
      by (simp add: eq_commute)
  qed
  then show ?thesis by (simp add: sorted_fact_def sort_values_loan_date_def)
qed

text \<open>
  C4, as the code has it. The engine sorts by (\<open>loan_id\<close>, \<open>payment_date\<close>) and keeps
  rows with the same loan and date in input order. When no two repayments share loan and
  payment date, every permutation of the input gives the same output.
\<close>

theorem amortization_input_order:
  assumes "mset df' = mset df"
    and "distinct (map (\<lambda>r. (loan_id r, payment_date r)) df)"
  shows "calculate_amortization df' dim_loan = calculate_amortization df dim_loan"
  by (simp add: calculate_amortization_def sorted_fact_of_permutation[OF assms])

theorem amortization_input_order_witness:
  "calculate_amortization [pay_orphan, pay_100] [loan_1200] =
   calculate_amortization [pay_100, pay_orphan] [loan_1200]
   \<and> map_option (map outputs) (calculate_amortization [pay_orphan, pay_100] [loan_1200]) =
     Some [(Some 12, Some 88, Some 1112), (Some 0, Some 40, Some 0)]"
  using amortization_input_order[of "[pay_orphan, pay_100]" "[pay_100, pay_orphan]" "[loan_1200]"]
  by (simp add: amort_eval)

text \<open>
  Two payments of one loan on the same day, of 100 and of 5: with the payment of 5
  first its row shows the balance 1200, with the payment of 100 first it shows 1112.
\<close>

theorem amortization_same_day_counterexample:
  "mset [pay_5, pay_100] = mset [pay_100, pay_5]
   \<and> map_option outputs_by_repayment (calculate_amortization [pay_5, pay_100] [loan_1200]) =
       Some {(''R2'', Some 0, Some 5, Some 1200), (''R1'', Some 88, Some 12, Some 1112)}
   \<and> map_option outputs_by_repayment (calculate_amortization [pay_100, pay_5] [loan_1200]) =
       Some {(''R1'', Some 88, Some 12, Some 1112), (''R2'', Some 0, Some 5, Some 1112)}
   \<and> (''R2'', Some 0, Some 5, Some 1200) \<notin>
       {(''R1'', Some 88, Some 12, Some 1112), (''R2'', Some 0, Some 5, Some (1112::real))}"
  by (simp add: amort_eval outputs_by_repayment_def add.commute)

section \<open>Properties of the portfolio KPIs\<close>










section \<open>Properties of the region\<close>

lemma split_on_nonempty: "split_on c s \<noteq> []"
  by (induction s) (simp_all split: list.splits)

lemma join_split_on: "join_on c (split_on c s) = s"
proof (induction s)
  case Nil
  show ?case by simp
next
  case (Cons x s)
  obtain p ps where ps: "split_on c s = p # ps"
    using split_on_nonempty[of c s] by (cases "split_on c s") auto
  with Cons show ?case by (cases ps) auto
qed

lemma split_on_pieces: "p \<in> set (split_on c s) \<Longrightarrow> c \<notin> set p"
proof (induction s arbitrary: p)
  case Nil
  then show ?case by simp
next
  case (Cons x s)
  then show ?case by (auto split: if_splits list.splits)
qed

lemma split_on_no_separator: "c \<notin> set s \<Longrightarrow> split_on c s = [s]"
  by (induction s) auto

lemma extract_region_missing: "extract_region None = ''Unknown''"
  by (simp add: extract_region_def)

lemma extract_region_no_comma: "CHR '','' \<notin> set a \<Longrightarrow> extract_region (Some a) = ''Unknown''"
  by (simp add: extract_region_def split_on_no_separator)

lemma extract_region_second_to_last:
  "split_on (CHR '','') a = front @ [p, q] \<Longrightarrow> extract_region (Some a) = strip p"
  by (simp add: extract_region_def nth_append)

lemma extract_region_few_parts:
  "length (split_on (CHR '','') a) < 2 \<Longrightarrow> extract_region (Some a) = ''Unknown''"
  by (simp add: extract_region_def)

text \<open>
  C8. The region is the second-to-last comma-separated part of the address, stripped,
  and \<open>Unknown\<close> for a missing address and for fewer than two parts (the lemmas above).
  The address of the specification's scenario has the parts street, city and state with
  ZIP code: its second-to-last part is the city, so the code yields \<open>Springfield\<close> where
  the scenario, and the comment in the code (\<^verbatim>\<open>Extract state as region\<close>), expect the
  state \<open>IL\<close>.
\<close>

theorem region_of_elm_street:
  "split_on (CHR '','') elm_street = [''12 Elm St'', '' Springfield'', '' IL 62701'']
   \<and> extract_region (Some elm_street) = ''Springfield''
   \<and> extract_region (Some elm_street) \<noteq> ''IL''
   \<and> region_column [\<lparr>dc_customer_id = ''C1'', dc_address = Some elm_street,
                       dc_credit_score = Some 700, dc_updated_date = Some 1\<rparr>] = [''Springfield'']"
  by (simp add: elm_street_def extract_region_def strip_def is_space_def region_column_def)

end
